theory Spec2Isabelle
  imports Main "HOL-Library.Finite_Map"
begin

section \<open>Data model\<close>

text \<open>
  The command enum of \<^verbatim>\<open>change.go\<close> (lines 13-21), in the order of its \<^verbatim>\<open>iota\<close>.
\<close>

datatype Command =
    MigratorUnknown
  | MigratorUpdate
  | MigratorSet
  | MigratorAdd
  | MigratorDelete

text \<open>
  The values a field of a document holds (Go's \<^verbatim>\<open>any\<close> below a \<^verbatim>\<open>map[string]any\<close>):
  the JSON primitives, sequences, string-keyed mappings, and the three database
  extensions. A mapping is a finite map, so that two mappings with the same fields are
  equal whatever the order of insertion. A number is an integer here: no function of
  \<^verbatim>\<open>change.go\<close> looks inside a number (what the JSON codec does to one is a
  matter of the codec, below). A timestamp is held as the RFC-3339 text of its
  instant, and a document reference as its path.
\<close>

datatype rich =
    Null
  | Boolean bool
  | Number int
  | Str string
  | Seq "rich list"
  | Mapping "(string, rich) fmap"
  | Timestamp string
  | DocumentReference string
  | DeleteMarker

type_synonym fields = "(string, rich) fmap"

text \<open>
  A Go \<^verbatim>\<open>map[string]any\<close> is either \<^verbatim>\<open>nil\<close> (\<open>None\<close>) or a mapping
  (\<open>Some m\<close>, possibly empty). The two differ under \<^verbatim>\<open>== nil\<close> and agree under
  \<^verbatim>\<open>len\<close>.
\<close>

type_synonym gomap = "fields option"

definition len :: "gomap \<Rightarrow> nat" where
  "len m = (case m of None \<Rightarrow> 0 | Some f \<Rightarrow> fcard (fmdom f))"

text \<open>A Go \<^verbatim>\<open>error\<close> is modelled by its message; \<^verbatim>\<open>nil\<close> is \<open>None\<close>.\<close>

type_synonym error = string

section \<open>Serialization layer\<close>

text \<open>
  Modelled from the spec: \<^verbatim>\<open>SerializeData\<close> and \<^verbatim>\<open>DeSerializeData\<close> are called by
  \<^verbatim>\<open>change.go\<close> and defined in a file of the repository that is not among the
  sources. The spec (4.1 and 6) gives them: a timestamp becomes the string
  \<^verbatim>\<open><time>\<close> + instant + \<^verbatim>\<open><time>\<close>, a document reference the string
  \<^verbatim>\<open><ref>\<close> + path + \<^verbatim>\<open><ref>\<close>, the delete marker the string
  \<^verbatim>\<open><delete>!delete<delete>\<close>; mappings and sequences recurse, primitives pass
  through unchanged; deserialization turns each tagged string back.
\<close>

definition wrap :: "string \<Rightarrow> string \<Rightarrow> string" where
  "wrap tag s = tag @ s @ tag"

definition unwrap :: "string \<Rightarrow> string \<Rightarrow> string option" where
  "unwrap tag s =
     (if 2 * length tag \<le> length s \<and> take (length tag) s = tag
         \<and> drop (length s - length tag) s = tag
      then Some (take (length s - 2 * length tag) (drop (length tag) s))
      else None)"

definition deleteLiteral :: string where
  "deleteLiteral = ''<delete>!delete<delete>''"

primrec serialize :: "rich \<Rightarrow> rich" where
  "serialize Null = Null"
| "serialize (Boolean b) = Boolean b"
| "serialize (Number n) = Number n"
| "serialize (Str s) = Str s"
| "serialize (Seq xs) = Seq (map serialize xs)"
| "serialize (Mapping m) = Mapping (fmmap serialize m)"
| "serialize (Timestamp t) = Str (wrap ''<time>'' t)"
| "serialize (DocumentReference p) = Str (wrap ''<ref>'' p)"
| "serialize DeleteMarker = Str deleteLiteral"

definition decodeString :: "string \<Rightarrow> rich" where
  "decodeString s =
     (if s = deleteLiteral then DeleteMarker
      else case unwrap ''<time>'' s of
             Some t \<Rightarrow> Timestamp t
           | None \<Rightarrow> (case unwrap ''<ref>'' s of
                        Some p \<Rightarrow> DocumentReference p
                      | None \<Rightarrow> Str s))"

primrec deserialize :: "rich \<Rightarrow> rich" where
  "deserialize Null = Null"
| "deserialize (Boolean b) = Boolean b"
| "deserialize (Number n) = Number n"
| "deserialize (Str s) = decodeString s"
| "deserialize (Seq xs) = Seq (map deserialize xs)"
| "deserialize (Mapping m) = Mapping (fmmap deserialize m)"
| "deserialize (Timestamp t) = Timestamp t"
| "deserialize (DocumentReference p) = DocumentReference p"
| "deserialize DeleteMarker = DeleteMarker"

text \<open>
  Modelled from the spec: the two functions as \<^verbatim>\<open>change.go\<close> calls them, on a whole
  document (\<^verbatim>\<open>SerializeData(data, c.database).(map[string]any)\<close>). They are total
  (4.1), and the result is asserted to be a mapping; a \<^verbatim>\<open>nil\<close> mapping has no field
  to recurse into and gives the empty mapping. The database client argument serves
  document references, which are held as their path here.
\<close>

definition SerializeData :: "gomap \<Rightarrow> fields" where
  "SerializeData data = (case data of None \<Rightarrow> fmempty | Some m \<Rightarrow> fmmap serialize m)"

definition DeSerializeData :: "gomap \<Rightarrow> fields" where
  "DeSerializeData data = (case data of None \<Rightarrow> fmempty | Some m \<Rightarrow> fmmap deserialize m)"

text \<open>
  A string has the sentinel form when deserialization reads it as an extension value.
  A value is plain when none of its strings has that form.
\<close>

definition sentinel :: "string \<Rightarrow> bool" where
  "sentinel s \<longleftrightarrow>
     s = deleteLiteral \<or> unwrap ''<time>'' s \<noteq> None \<or> unwrap ''<ref>'' s \<noteq> None"

primrec plain :: "rich \<Rightarrow> bool" where
  "plain Null = True"
| "plain (Boolean b) = True"
| "plain (Number n) = True"
| "plain (Str s) = (\<not> sentinel s)"
| "plain (Seq xs) = list_all (\<lambda>b. b) (map plain xs)"
| "plain (Mapping m) = fmpred (\<lambda>k b. b) (fmmap plain m)"
| "plain (Timestamp t) = True"
| "plain (DocumentReference p) = True"
| "plain DeleteMarker = True"


section \<open>The database client and the other collaborators\<close>

text \<open>
  The \<^verbatim>\<open>Firestore\<close> interface is declared outside the sources; \<^verbatim>\<open>pushChange\<close>
  calls three of its methods. A call is a value, and the client is modelled by what it
  has been asked to do so far (\<open>calls\<close>) and by what it answers (\<open>reply\<close>).
\<close>

datatype db_call =
    UpdateDoc string gomap
  | SetDoc string gomap
  | DeleteDoc string

record Firestore =
  calls :: "db_call list"
  reply :: "db_call \<Rightarrow> error option"

definition invoke :: "Firestore \<Rightarrow> db_call \<Rightarrow> Firestore \<times> error option" where
  "invoke db call = (db\<lparr>calls := calls db @ [call]\<rparr>, reply db call)"

text \<open>
  The functions \<^verbatim>\<open>change.go\<close> calls and does not define, as parameters of the model:
  \<^verbatim>\<open>json.Marshal\<close> on a serialized document and \<^verbatim>\<open>json.Unmarshal\<close> into a
  \<^verbatim>\<open>nil\<close> \<^verbatim>\<open>map[string]any\<close> variable (whose error the source drops, so that only the
  value of the variable afterwards matters), and the repository's \<^verbatim>\<open>ApplyDiffPatch\<close>,
  \<^verbatim>\<open>GetDiffPatch\<close> and \<^verbatim>\<open>PrettyDiff\<close>. A byte slice is the string of its bytes.
  A returned error is \<open>Inl\<close> of its message. Nothing is assumed of them: in
  particular \<^verbatim>\<open>json.Unmarshal\<close> need not return the document \<^verbatim>\<open>json.Marshal\<close>
  was given (it reads every number into a \<^verbatim>\<open>float64\<close>).
\<close>

record externals =
  Marshal :: "fields \<Rightarrow> error + string"
  Unmarshal :: "string \<Rightarrow> gomap"
  ApplyDiffPatch :: "string \<Rightarrow> string \<Rightarrow> error + string"
  GetDiffPatch :: "string \<Rightarrow> string \<Rightarrow> error + string"
  PrettyDiff :: "fields \<Rightarrow> fields \<Rightarrow> error + string"

section \<open>The change\<close>

text \<open>The struct of lines 25-37.\<close>

record Change =
  docPath :: string
  before :: gomap
  patch :: gomap
  after :: gomap
  instruction :: string
  command :: Command
  prettyDiff :: string
  rollback :: string
  errState :: "error option"
  database :: Firestore
  cache :: "(string, fields) fmap"

text \<open>\<^verbatim>\<open>NewChange\<close> (lines 40-57): the fields it does not set hold Go's zero values.\<close>

definition NewChange ::
  "string \<Rightarrow> gomap \<Rightarrow> gomap \<Rightarrow> Command \<Rightarrow> string \<Rightarrow> Firestore \<Rightarrow> Change" where
  "NewChange docPath' before' patch' command' instruction' database' =
     \<lparr>docPath = docPath', before = before', patch = patch', after = None,
      instruction = instruction', command = command', prettyDiff = [], rollback = [],
      errState = Some ''Change has not yet been solved.'', database = database',
      cache = fmempty\<rparr>"

text \<open>
  \<^verbatim>\<open>fetchCache\<close> (lines 267-274) and \<^verbatim>\<open>beforeAfterCache\<close> (lines 275-278). The
  cache is a field of the change, so both return the change next to their result.
  \<^verbatim>\<open>NewChange\<close> allocates the cache, which is therefore a mapping and never
  \<^verbatim>\<open>nil\<close>.
\<close>

definition fetchCache :: "string \<Rightarrow> gomap \<Rightarrow> Change \<Rightarrow> fields \<times> Change" where
  "fetchCache key data c =
     (case fmlookup (cache c) key of
        Some sVar \<Rightarrow> (sVar, c)
      | None \<Rightarrow> (let sVar = SerializeData data
                 in (sVar, c\<lparr>cache := fmupd key sVar (cache c)\<rparr>)))"

definition beforeAfterCache :: "Change \<Rightarrow> (fields \<times> fields) \<times> Change" where
  "beforeAfterCache c =
     (let (sBefore, c1) = fetchCache ''serialBefore'' (before c) c;
          (sAfter, c2) = fetchCache ''serialAfter'' (after c1) c1
      in ((sBefore, sAfter), c2))"

text \<open>\<^verbatim>\<open>commandString\<close> (lines 88-101).\<close>

definition commandString :: "Change \<Rightarrow> string" where
  "commandString c =
     (case command c of
        MigratorUpdate \<Rightarrow> ''update''
      | MigratorSet \<Rightarrow> ''set''
      | MigratorAdd \<Rightarrow> ''add''
      | MigratorDelete \<Rightarrow> ''delete''
      | MigratorUnknown \<Rightarrow> ''unknown'')"

text \<open>
  \<^verbatim>\<open>inferAfter\<close> (lines 104-150). The switch has a case for Set, Add and Delete; every
  other command goes on to the check of line 120. Each step returns the change (the
  receiver it may have written to) and the error.
\<close>

definition needInputs :: error where
  "needInputs = ''Need before and patch/instruction to infer after.''"

definition inferAfter :: "externals \<Rightarrow> Change \<Rightarrow> Change \<times> error option" where
  "inferAfter ext c =
     (case command c of
        MigratorSet \<Rightarrow> (c\<lparr>after := patch c\<rparr>, None)
      | MigratorAdd \<Rightarrow> (c\<lparr>after := patch c\<rparr>, None)
      | MigratorDelete \<Rightarrow> (c\<lparr>after := Some fmempty\<rparr>, None)
      | _ \<Rightarrow>
         if before c = None \<or> (patch c = None \<and> instruction c = [])
         then (c, Some needInputs)
         else
           let (sBefore, c1) = fetchCache ''sBefore'' (before c) c;
               (sPatch, c2) = fetchCache ''sPatch'' (patch c1) c1
           in case Marshal ext sBefore of
                Inl err \<Rightarrow> (c2, Some err)
              | Inr bm \<Rightarrow>
                 (case (if 0 < length (instruction c2) \<and> len (patch c2) = 0
                        then Inr (instruction c2) else Marshal ext sPatch) of
                    Inl err \<Rightarrow> (c2, Some err)
                  | Inr pm \<Rightarrow>
                     (case ApplyDiffPatch ext bm pm of
                        Inl err \<Rightarrow> (c2, Some err)
                      | Inr a \<Rightarrow>
                         (c2\<lparr>after := Some (DeSerializeData (Unmarshal ext a))\<rparr>, None))))"

text \<open>\<^verbatim>\<open>inferCommand\<close> (lines 153-171).\<close>

definition inferCommand :: "Change \<Rightarrow> Change \<times> error option" where
  "inferCommand c =
     (if command c \<noteq> MigratorUnknown then (c, None)
      else if after c = None then (c, Some ''Need after value to infer command.'')
      else if 0 < len (after c) then (c\<lparr>command := MigratorSet\<rparr>, None)
      else (c\<lparr>command := MigratorDelete\<rparr>, None))"

text \<open>\<^verbatim>\<open>inferRollback\<close> (lines 175-194).\<close>

definition inferRollback :: "externals \<Rightarrow> Change \<Rightarrow> Change \<times> error option" where
  "inferRollback ext c =
     (if before c = None \<or> after c = None
      then (c, Some ''Need before and after value to infer rollback.'')
      else
        let ((sBefore, sAfter), c1) = beforeAfterCache c
        in case Marshal ext sAfter of
             Inl err \<Rightarrow> (c1, Some err)
           | Inr a \<Rightarrow>
              (case Marshal ext sBefore of
                 Inl err \<Rightarrow> (c1, Some err)
               | Inr b \<Rightarrow>
                  (case GetDiffPatch ext a b of
                     Inl err \<Rightarrow> (c1, Some err)
                   | Inr r \<Rightarrow> (c1\<lparr>rollback := r\<rparr>, None))))"

text \<open>\<^verbatim>\<open>inferPatch\<close> (lines 198-205): it returns no error.\<close>

definition inferPatch :: "Change \<Rightarrow> Change" where
  "inferPatch c =
     (if len (patch c) = 0 \<and>
         (command c = MigratorAdd \<or> command c = MigratorSet \<or> command c = MigratorUpdate)
      then c\<lparr>patch := after c\<rparr>
      else c)"

text \<open>\<^verbatim>\<open>inferPrettyDiff\<close> (lines 208-222).\<close>

definition inferPrettyDiff :: "externals \<Rightarrow> Change \<Rightarrow> Change \<times> error option" where
  "inferPrettyDiff ext c =
     (if before c = None \<or> after c = None
      then (c, Some ''Need before and after value to infer pretty diff.'')
      else
        let ((sBefore, sAfter), c1) = beforeAfterCache c
        in case PrettyDiff ext sBefore sAfter of
             Inl err \<Rightarrow> (c1, Some err)
           | Inr s \<Rightarrow> (c1\<lparr>prettyDiff := s\<rparr>, None))"

text \<open>\<^verbatim>\<open>SolveChange\<close> (lines 60-85).\<close>

definition SolveChange :: "externals \<Rightarrow> Change \<Rightarrow> Change \<times> error option" where
  "SolveChange ext c =
     (case inferAfter ext (c\<lparr>errState := None\<rparr>) of
        (c1, Some err) \<Rightarrow> (c1\<lparr>errState := Some err\<rparr>, Some err)
      | (c1, None) \<Rightarrow>
     (case inferCommand c1 of
        (c2, Some err) \<Rightarrow> (c2\<lparr>errState := Some err\<rparr>, Some err)
      | (c2, None) \<Rightarrow>
     (case inferPrettyDiff ext c2 of
        (c3, Some err) \<Rightarrow> (c3\<lparr>errState := Some err\<rparr>, Some err)
      | (c3, None) \<Rightarrow>
     (case inferRollback ext c3 of
        (c4, Some err) \<Rightarrow> (c4\<lparr>errState := Some err\<rparr>, Some err)
      | (c4, None) \<Rightarrow> (inferPatch c4, None)))))"

section \<open>Presentation and execution\<close>

text \<open>
  \<^verbatim>\<open>strings.ToUpper\<close> on the ASCII letters; \<^verbatim>\<open>Present\<close> applies it to the result of
  \<^verbatim>\<open>commandString\<close>, which is one of five lower-case ASCII words. A lower-case
  letter (bytes 97 to 122) loses 32, which is its bit 5.
\<close>

definition upperChar :: "char \<Rightarrow> char" where
  "upperChar ch =
     (if 97 \<le> (of_char ch :: nat) \<and> (of_char ch :: nat) \<le> 122
      then (case ch of Char b0 b1 b2 b3 b4 b5 b6 b7 \<Rightarrow> Char b0 b1 b2 b3 b4 False b6 b7)
      else ch)"

definition ToUpper :: "string \<Rightarrow> string" where
  "ToUpper s = map upperChar s"

text \<open>
  \<^verbatim>\<open>strings.Replace(s, old, new, -1)\<close>: every occurrence of \<open>old\<close>, from the left and
  without overlap, becomes \<open>new\<close>. \<^verbatim>\<open>Present\<close> passes a non-empty \<open>old\<close> only; an
  empty one, which Go treats apart, leaves \<open>s\<close> as it is here.
\<close>

function Replace :: "string \<Rightarrow> string \<Rightarrow> string \<Rightarrow> string" where
  "Replace [] old new = []"
| "Replace (x # xs) old new =
     (if old \<noteq> [] \<and> take (length old) (x # xs) = old
      then new @ Replace (drop (length old) (x # xs)) old new
      else x # Replace xs old new)"
  by pat_completeness auto
termination
  by (relation "measure (\<lambda>(s, old, new). length s)") auto

text \<open>
  \<^verbatim>\<open>fmt.Sprintf\<close> on a format and no operand copies the format up to its first
  \<^verbatim>\<open>%\<close>. What Go prints from there on is left to the parameter \<open>verbs\<close>, applied to
  the text that follows that \<^verbatim>\<open>%\<close>.
\<close>

fun Sprintf :: "(string \<Rightarrow> string) \<Rightarrow> string \<Rightarrow> string" where
  "Sprintf verbs [] = []"
| "Sprintf verbs (ch # rest) =
     (if ch = CHR ''%'' then verbs rest else ch # Sprintf verbs rest)"

text \<open>
  \<^verbatim>\<open>Present\<close> (lines 225-250). \<^verbatim>\<open>clrTheme().blue\<close> is defined outside the sources
  and is the parameter \<open>blue\<close>. The second header line is
  \<^verbatim>\<open>fmt.Sprintf(" >> [%s]", ...)\<close>, which puts its operand between the brackets.
\<close>

definition Present ::
  "(string \<Rightarrow> string) \<Rightarrow> (string \<Rightarrow> string) \<Rightarrow> Change \<Rightarrow> string list \<times> string" where
  \<open>Present blue verbs c =
     (let header = [''Target: '' @ blue (docPath c),
                    '' >> ['' @ ToUpper (commandString c) @ '']'' @ ''\<newline>\<newline>'']
      in case errState c of
           Some e \<Rightarrow>
             (header, Sprintf verbs ''< !!! ERROR STATE !!! >\<newline>''
                        @ Sprintf verbs (e @ ''\<newline>''))
         | None \<Rightarrow>
             if length (prettyDiff c) = 0
             then (header, Sprintf verbs ''< no changes >\<newline>'')
             else
               let s = foldl (\<lambda>s r. Replace (Replace s (''"'' @ r) []) (r @ ''"'') [])
                         (prettyDiff c) [''__timestamp__'', ''__delete__'', ''__docref__'']
               in (header, Sprintf verbs (s @ ''\<newline>'')))\<close>

text \<open>
  \<^verbatim>\<open>pushChange\<close> (lines 253-265). It returns what the client answers; the change is
  returned with the client after the call.
\<close>

definition pushChange :: "(gomap \<Rightarrow> gomap) \<Rightarrow> Change \<Rightarrow> Change \<times> error option" where
  "pushChange transformer c =
     (let data = transformer (patch c);
          (db, err) =
            (case command c of
               MigratorUpdate \<Rightarrow> invoke (database c) (UpdateDoc (docPath c) data)
             | MigratorSet \<Rightarrow> invoke (database c) (SetDoc (docPath c) data)
             | MigratorAdd \<Rightarrow> invoke (database c) (SetDoc (docPath c) data)
             | _ \<Rightarrow> invoke (database c) (DeleteDoc (docPath c)))
      in (c\<lparr>database := db\<rparr>, err))"

section \<open>The pipeline as the spec words it\<close>

text \<open>
  The spec (4.2 and 7) describes resolution as a fixed sequence of steps that fails
  closed: the first step that fails sets the error state and the remaining steps are
  skipped. \<open>runSteps\<close> is that description, to be compared with \<open>SolveChange\<close>.
\<close>

fun runSteps ::
  "(Change \<Rightarrow> Change \<times> error option) list \<Rightarrow> Change \<Rightarrow> Change \<times> error option" where
  "runSteps [] c = (c, None)"
| "runSteps (step # rest) c =
     (case step c of
        (c', Some err) \<Rightarrow> (c'\<lparr>errState := Some err\<rparr>, Some err)
      | (c', None) \<Rightarrow> runSteps rest c')"

definition inferenceSteps :: "externals \<Rightarrow> (Change \<Rightarrow> Change \<times> error option) list" where
  "inferenceSteps ext = [inferAfter ext, inferCommand, inferPrettyDiff ext, inferRollback ext]"

definition pipeline :: "externals \<Rightarrow> (Change \<Rightarrow> Change \<times> error option) list" where
  "pipeline ext = inferenceSteps ext @ [\<lambda>c. (inferPatch c, None)]"

text \<open>The fields resolution derives.\<close>

definition derived :: "Change \<Rightarrow> gomap \<times> Command \<times> string \<times> string \<times> gomap" where
  "derived c = (after c, command c, prettyDiff c, rollback c, patch c)"

section \<open>Rollback\<close>





section \<open>The collaborators on the documents of the scenarios\<close>

text \<open>
  An instance of the collaborators for the runs below. The codec knows four documents,
  with the text \<^verbatim>\<open>json.Marshal\<close> writes for each (it writes \<^verbatim>\<open><\<close> and \<^verbatim>\<open>>\<close> as
  \<^verbatim>\<open>u003c\<close> and \<^verbatim>\<open>u003e\<close> after a backslash), and refuses every other one. The
  diff/patch pair is the whole-document one the spec allows: the patch that leads to a
  document is that document. The rendering of a difference is a stand-in.
\<close>

definition jsonTagged :: string where
  \<open>jsonTagged =
     ''{"a":"'' @ [CHR 0x5C] @ ''u003cdelete'' @ [CHR 0x5C] @ ''u003e!delete''
       @ [CHR 0x5C] @ ''u003cdelete'' @ [CHR 0x5C] @ ''u003e"}''\<close>

definition scenarioMarshal :: "fields \<Rightarrow> error + string" where
  \<open>scenarioMarshal m =
     (if m = fmempty then Inr ''{}''
      else if m = fmupd ''foo'' (Str ''bar'') fmempty then Inr ''{"foo":"bar"}''
      else if m = fmupd ''foo'' (Str ''baz'') fmempty then Inr ''{"foo":"baz"}''
      else if m = fmupd ''a'' (Str deleteLiteral) fmempty then Inr jsonTagged
      else Inl ''json: a document outside the scenarios'')\<close>

definition scenarioUnmarshal :: "string \<Rightarrow> gomap" where
  \<open>scenarioUnmarshal t =
     (if t = ''{}'' then Some fmempty
      else if t = ''{"foo":"bar"}'' then Some (fmupd ''foo'' (Str ''bar'') fmempty)
      else if t = ''{"foo":"baz"}'' then Some (fmupd ''foo'' (Str ''baz'') fmempty)
      else if t = jsonTagged then Some (fmupd ''a'' (Str deleteLiteral) fmempty)
      else None)\<close>

definition replaceDiff :: "string \<Rightarrow> string \<Rightarrow> error + string" where
  "replaceDiff a b =
     (if scenarioUnmarshal a = None \<or> scenarioUnmarshal b = None
      then Inl ''malformed document'' else Inr b)"

definition replaceApply :: "string \<Rightarrow> string \<Rightarrow> error + string" where
  "replaceApply a p =
     (if scenarioUnmarshal a = None \<or> scenarioUnmarshal p = None
      then Inl ''malformed document'' else Inr p)"

definition scenarioPrettyDiff :: "fields \<Rightarrow> fields \<Rightarrow> error + string" where
  "scenarioPrettyDiff a b = Inr (if a = b then [] else ''(changed)'')"

definition scenarioExt :: externals where
  "scenarioExt =
     \<lparr>Marshal = scenarioMarshal, Unmarshal = scenarioUnmarshal,
      ApplyDiffPatch = replaceApply, GetDiffPatch = replaceDiff,
      PrettyDiff = scenarioPrettyDiff\<rparr>"

text \<open>Collaborators that fail on every call.\<close>

definition brokenExt :: externals where
  "brokenExt =
     \<lparr>Marshal = (\<lambda>m. Inl ''unavailable''), Unmarshal = (\<lambda>t. None),
      ApplyDiffPatch = (\<lambda>a p. Inl ''unavailable''),
      GetDiffPatch = (\<lambda>a b. Inl ''unavailable''),
      PrettyDiff = (\<lambda>a b. Inl ''unavailable'')\<rparr>"











definition acceptAll :: "db_call \<Rightarrow> error option" where
  "acceptAll call = None"

definition quietClient :: Firestore where
  "quietClient = \<lparr>calls = [], reply = acceptAll\<rparr>"

text \<open>
  The changes of the spec's scenarios A to D, and five more: an addition with no
  before state, an unknown command with an empty patch on an empty document, a delete of a document whose field is a string
  that spells the delete marker, an update given by an instruction, and a resolved
  change whose rendered difference holds a serialized timestamp.
\<close>

definition scenarioA :: Change where
  "scenarioA =
     NewChange ''fig/fog'' (Some (fmupd ''foo'' (Str ''bar'') fmempty))
       (Some (fmupd ''foo'' (Str ''baz'') fmempty)) MigratorUnknown [] quietClient"

definition scenarioB :: Change where
  "scenarioB =
     NewChange ''fig/fog'' (Some fmempty)
       (Some (fmupd ''foo'' (Str ''baz'') fmempty)) MigratorAdd [] quietClient"

definition scenarioC :: Change where
  "scenarioC =
     NewChange ''fig/fog'' (Some (fmupd ''foo'' (Str ''bar'') fmempty)) None
       MigratorDelete [] quietClient"

definition scenarioD :: Change where
  "scenarioD =
     NewChange ''fig/fog'' None (Some (fmupd ''y'' (Number 2) fmempty))
       MigratorUnknown [] quietClient"

definition addWithoutBefore :: Change where
  "addWithoutBefore =
     NewChange ''fig/fog'' None (Some (fmupd ''foo'' (Str ''baz'') fmempty))
       MigratorAdd [] quietClient"

definition emptyPatchChange :: Change where
  "emptyPatchChange =
     NewChange ''fig/fog'' (Some fmempty) (Some fmempty) MigratorUnknown [] quietClient"

definition taggedChange :: Change where
  "taggedChange =
     NewChange ''fig/fog'' (Some (fmupd ''a'' (Str ''<delete>!delete<delete>'') fmempty)) None
       MigratorDelete [] quietClient"

definition updateChange :: Change where
  \<open>updateChange =
     NewChange ''fig/fog'' (Some (fmupd ''foo'' (Str ''bar'') fmempty)) None
       MigratorUpdate ''{"foo":"baz"}'' quietClient\<close>

definition timestampChange :: Change where
  \<open>timestampChange =
     (NewChange ''fig/fog'' (Some fmempty)
        (Some (fmupd ''time'' (Timestamp ''2023-05-13T13:44:40.522Z'') fmempty))
        MigratorAdd [] quietClient)
     \<lparr>after := Some (fmupd ''time'' (Timestamp ''2023-05-13T13:44:40.522Z'') fmempty),
      prettyDiff := ''+ "time": "<time>2023-05-13T13:44:40.522Z<time>"'',
      errState := None\<rparr>\<close>






section \<open>Sample values\<close>

text \<open>
  A document value with every kind of field: the three extensions, a sequence and a
  nested mapping. The string \<^verbatim>\<open><time>\<close> alone is too short to be a tagged timestamp.
\<close>

definition richSample :: rich where
  "richSample =
     Mapping (fmupd ''time'' (Timestamp ''2023-05-13T13:44:40.522Z'')
       (fmupd ''ref'' (DocumentReference ''fig/fog'')
         (fmupd ''prev'' DeleteMarker
           (fmupd ''buz'' (Seq [Number 2, Str ''bar'', Null, Boolean False,
                                 Mapping (fmupd ''a'' (Str ''<time>'') fmempty)])
             fmempty))))"

section \<open>Finite maps: facts used below\<close>

lemma fmmap_fmupd: "fmmap f (fmupd k v m) = fmupd k (f v) (fmmap f m)"
  by (rule fmap_ext) simp

lemma fmupd_single_eq:
  "fmupd k v fmempty = fmupd k' w fmempty \<longleftrightarrow> k = k' \<and> v = w"
proof
  assume eq: "fmupd k v fmempty = fmupd k' w fmempty"
  then have "fmlookup (fmupd k v fmempty) k = fmlookup (fmupd k' w fmempty) k"
    by simp
  then show "k = k' \<and> v = w"
    by (cases "k = k'") simp_all
qed simp

lemma fmmap_fixed: "fmmap f m = m \<longleftrightarrow> (\<forall>x\<in>fmran' m. f x = x)"
proof
  assume eq: "fmmap f m = m"
  show "\<forall>x\<in>fmran' m. f x = x"
  proof
    fix x assume "x \<in> fmran' m"
    then obtain k where k: "fmlookup m k = Some x"
      by (auto simp: fmlookup_ran'_iff)
    have "fmlookup (fmmap f m) k = Some (f x)"
      using k by simp
    with eq k show "f x = x" by simp
  qed
next
  assume fixed: "\<forall>x\<in>fmran' m. f x = x"
  show "fmmap f m = m"
  proof (rule fmap_ext)
    fix k
    show "fmlookup (fmmap f m) k = fmlookup m k"
      using fixed by (cases "fmlookup m k") (auto simp: fmlookup_ran'_iff)
  qed
qed

lemma map_fixed: "map f xs = xs \<longleftrightarrow> (\<forall>x\<in>set xs. f x = x)"
  by (induction xs) auto

lemma fmdom_empty_iff: "fmdom m = {||} \<longleftrightarrow> m = fmempty"
proof
  assume "fmdom m = {||}"
  then have "fmlookup m k = None" for k
    by (simp add: fmdom_notD)
  then show "m = fmempty"
    by (intro fmap_ext) simp
qed simp

lemma len_zero: "len m = 0 \<longleftrightarrow> m = None \<or> m = Some fmempty"
  by (cases m) (simp_all add: len_def fmdom_empty_iff)

section \<open>Serialization: the round trip\<close>

lemma unwrap_wrap: "unwrap tag (wrap tag s) = Some s"
  by (simp add: unwrap_def wrap_def)

lemma decodeString_time: "decodeString (wrap ''<time>'' t) = Timestamp t"
  by (simp add: decodeString_def unwrap_wrap) (simp add: wrap_def deleteLiteral_def)

lemma decodeString_ref: "decodeString (wrap ''<ref>'' p) = DocumentReference p"
  by (simp add: decodeString_def unwrap_wrap) (simp add: wrap_def deleteLiteral_def unwrap_def)

lemma decodeString_delete: "decodeString deleteLiteral = DeleteMarker"
  by (simp add: decodeString_def)

lemma decodeString_plain: "decodeString s = Str s \<longleftrightarrow> \<not> sentinel s"
  by (auto simp: decodeString_def sentinel_def split: option.splits)

lemma plain_Seq: "plain (Seq xs) \<longleftrightarrow> (\<forall>x\<in>set xs. plain x)"
  by (auto simp: list_all_iff)

lemma plain_Mapping: "plain (Mapping m) \<longleftrightarrow> (\<forall>x\<in>fmran' m. plain x)"
proof -
  have "plain (Mapping m) \<longleftrightarrow> fmpred (\<lambda>k v. plain v) m"
    by (simp only: plain.simps fmpred_map)
  also have "\<dots> \<longleftrightarrow> (\<forall>k v. fmlookup m k = Some v \<longrightarrow> plain v)"
    by (rule fmpred_iff)
  also have "\<dots> \<longleftrightarrow> (\<forall>x\<in>fmran' m. plain x)"
    by (auto simp: fmlookup_ran'_iff)
  finally show ?thesis .
qed

lemma roundtrip_iff: "deserialize (serialize v) = v \<longleftrightarrow> plain v"
proof (induction v)
  case (Seq xs)
  then show ?case
    by (simp add: plain_Seq map_fixed del: plain.simps)
next
  case (Mapping m)
  then show ?case
    by (simp add: plain_Mapping fmmap_fixed fmap.map_comp del: plain.simps)
qed (simp_all add: decodeString_time decodeString_ref decodeString_delete decodeString_plain)


text \<open>
  Claim C2, as amended. Deserializing the serialized form of a value gives the value
  back exactly when the value is plain, that is, when none of its strings already has
  the form of a tagged timestamp, reference or delete marker. Serialization leaves a
  string as it is, so such a string and the extension value it spells have the same
  serialized form, and deserialization reads both as the extension value.
\<close>

theorem serialize_roundtrip: "deserialize (serialize v) = v \<longleftrightarrow> plain v"
  by (rule roundtrip_iff)

theorem serialize_roundtrip_witness:
  "plain richSample \<and> deserialize (serialize richSample) = richSample"
proof -
  have p: "plain richSample"
    by (auto simp: richSample_def sentinel_def unwrap_def deleteLiteral_def
             intro!: fmpred_upd)
  with serialize_roundtrip [of richSample] show ?thesis by simp
qed

text \<open>
  Claim C2 as stated fails on the string that spells the delete marker: it comes back
  as the delete marker.
\<close>

theorem serialize_roundtrip_counterexample:
  "deserialize (serialize (Str ''<delete>!delete<delete>'')) \<noteq> Str ''<delete>!delete<delete>''"
  by (simp add: decodeString_def deleteLiteral_def)

section \<open>The steps of the engine: what each leaves alone\<close>

lemma fetchCache_eq:
  "fetchCache k d c =
     (case fmlookup (cache c) k of
        Some s \<Rightarrow> (s, c)
      | None \<Rightarrow> (SerializeData d, c\<lparr>cache := fmupd k (SerializeData d) (cache c)\<rparr>))"
  by (simp add: fetchCache_def Let_def split: option.splits)



lemma fetchCache_hit:
  assumes "fmlookup (cache c) key = Some s"
  shows "fetchCache key d c = (s, c)"
  using assms by (simp add: fetchCache_eq)

lemma inferAfter_frame:
  assumes "inferAfter ext c = (c', e)"
  shows "\<exists>ch a. c' = c\<lparr>cache := ch, after := a\<rparr> \<and> (e \<noteq> None \<longrightarrow> a = after c)"
proof -
  have "c' = c\<lparr>cache := cache c', after := after c'\<rparr> \<and> (e \<noteq> None \<longrightarrow> after c' = after c)"
    using assms
    by (auto simp: inferAfter_def fetchCache_eq Let_def
             split: Command.splits if_splits option.splits prod.splits sum.splits)
  then show ?thesis by blast
qed

lemma inferCommand_frame:
  assumes "inferCommand c = (c', e)"
  shows "\<exists>cm. c' = c\<lparr>command := cm\<rparr> \<and> (e \<noteq> None \<longrightarrow> cm = command c)"
proof -
  have "c' = c\<lparr>command := command c'\<rparr> \<and> (e \<noteq> None \<longrightarrow> command c' = command c)"
    using assms by (auto simp: inferCommand_def split: if_splits)
  then show ?thesis by blast
qed

lemma inferPrettyDiff_frame:
  assumes "inferPrettyDiff ext c = (c', e)"
  shows "\<exists>ch pd. c' = c\<lparr>cache := ch, prettyDiff := pd\<rparr> \<and> (e \<noteq> None \<longrightarrow> pd = prettyDiff c)"
proof -
  have "c' = c\<lparr>cache := cache c', prettyDiff := prettyDiff c'\<rparr>
         \<and> (e \<noteq> None \<longrightarrow> prettyDiff c' = prettyDiff c)"
    using assms
    by (auto simp: inferPrettyDiff_def beforeAfterCache_def fetchCache_eq Let_def
             split: if_splits option.splits prod.splits sum.splits)
  then show ?thesis by blast
qed

lemma inferRollback_frame:
  assumes "inferRollback ext c = (c', e)"
  shows "\<exists>ch r. c' = c\<lparr>cache := ch, rollback := r\<rparr> \<and> (e \<noteq> None \<longrightarrow> r = rollback c)"
proof -
  have "c' = c\<lparr>cache := cache c', rollback := rollback c'\<rparr>
         \<and> (e \<noteq> None \<longrightarrow> rollback c' = rollback c)"
    using assms
    by (auto simp: inferRollback_def beforeAfterCache_def fetchCache_eq Let_def
             split: if_splits option.splits prod.splits sum.splits)
  then show ?thesis by blast
qed

lemma inferPatch_frame: "\<exists>p. inferPatch c = c\<lparr>patch := p\<rparr>"
proof -
  have "inferPatch c = c\<lparr>patch := patch (inferPatch c)\<rparr>"
    by (simp add: inferPatch_def)
  then show ?thesis by blast
qed

text \<open>What a run of the whole pipeline leaves in the change, step by step.\<close>

lemma SolveChange_cases:
  obtains
    (failAfter) c1 err where
      "inferAfter ext (c\<lparr>errState := None\<rparr>) = (c1, Some err)"
      "SolveChange ext c = (c1\<lparr>errState := Some err\<rparr>, Some err)"
  | (failCommand) c1 c2 err where
      "inferAfter ext (c\<lparr>errState := None\<rparr>) = (c1, None)"
      "inferCommand c1 = (c2, Some err)"
      "SolveChange ext c = (c2\<lparr>errState := Some err\<rparr>, Some err)"
  | (failPrettyDiff) c1 c2 c3 err where
      "inferAfter ext (c\<lparr>errState := None\<rparr>) = (c1, None)"
      "inferCommand c1 = (c2, None)"
      "inferPrettyDiff ext c2 = (c3, Some err)"
      "SolveChange ext c = (c3\<lparr>errState := Some err\<rparr>, Some err)"
  | (failRollback) c1 c2 c3 c4 err where
      "inferAfter ext (c\<lparr>errState := None\<rparr>) = (c1, None)"
      "inferCommand c1 = (c2, None)"
      "inferPrettyDiff ext c2 = (c3, None)"
      "inferRollback ext c3 = (c4, Some err)"
      "SolveChange ext c = (c4\<lparr>errState := Some err\<rparr>, Some err)"
  | (success) c1 c2 c3 c4 where
      "inferAfter ext (c\<lparr>errState := None\<rparr>) = (c1, None)"
      "inferCommand c1 = (c2, None)"
      "inferPrettyDiff ext c2 = (c3, None)"
      "inferRollback ext c3 = (c4, None)"
      "SolveChange ext c = (inferPatch c4, None)"
proof -
  obtain c1 e1 where s1: "inferAfter ext (c\<lparr>errState := None\<rparr>) = (c1, e1)"
    by (cases "inferAfter ext (c\<lparr>errState := None\<rparr>)")
  obtain c2 e2 where s2: "inferCommand c1 = (c2, e2)"
    by (cases "inferCommand c1")
  obtain c3 e3 where s3: "inferPrettyDiff ext c2 = (c3, e3)"
    by (cases "inferPrettyDiff ext c2")
  obtain c4 e4 where s4: "inferRollback ext c3 = (c4, e4)"
    by (cases "inferRollback ext c3")
  show thesis
  proof (cases e1)
    case (Some err)
    with s1 show thesis by (intro failAfter [of c1 err]) (simp_all add: SolveChange_def)
  next
    case n1: None
    show thesis
    proof (cases e2)
      case (Some err)
      with s1 s2 n1 show thesis
        by (intro failCommand [of c1 c2 err]) (simp_all add: SolveChange_def)
    next
      case n2: None
      show thesis
      proof (cases e3)
        case (Some err)
        with s1 s2 s3 n1 n2 show thesis
          by (intro failPrettyDiff [of c1 c2 c3 err]) (simp_all add: SolveChange_def)
      next
        case n3: None
        show thesis
        proof (cases e4)
          case (Some err)
          with s1 s2 s3 s4 n1 n2 n3 show thesis
            by (intro failRollback [of c1 c2 c3 c4 err]) (simp_all add: SolveChange_def)
        next
          case None
          with s1 s2 s3 s4 n1 n2 n3 show thesis
            by (intro success [of c1 c2 c3 c4]) (simp_all add: SolveChange_def)
        qed
      qed
    qed
  qed
qed

lemma SolveChange_success:
  assumes "SolveChange ext c = (c', None)"
  obtains c1 c2 c3 c4 where
    "inferAfter ext (c\<lparr>errState := None\<rparr>) = (c1, None)"
    "inferCommand c1 = (c2, None)"
    "inferPrettyDiff ext c2 = (c3, None)"
    "inferRollback ext c3 = (c4, None)"
    "c' = inferPatch c4"
  using assms by (cases rule: SolveChange_cases [of ext c]) auto

text \<open>The steps after the first leave \<open>after\<close> alone, whether they fail or not.\<close>

lemma SolveChange_after:
  assumes "inferAfter ext (c\<lparr>errState := None\<rparr>) = (c1, e1)"
  shows "after (fst (SolveChange ext c)) = after c1"
proof (cases rule: SolveChange_cases [of ext c])
  case (failAfter d1 err)
  with assms show ?thesis by simp
next
  case (failCommand d1 d2 err)
  with assms inferCommand_frame [OF failCommand(2)] show ?thesis by auto
next
  case (failPrettyDiff d1 d2 d3 err)
  with assms inferCommand_frame [OF failPrettyDiff(2)]
    inferPrettyDiff_frame [OF failPrettyDiff(3)] show ?thesis by auto
next
  case (failRollback d1 d2 d3 d4 err)
  with assms inferCommand_frame [OF failRollback(2)]
    inferPrettyDiff_frame [OF failRollback(3)]
    inferRollback_frame [OF failRollback(4)] show ?thesis by auto
next
  case (success d1 d2 d3 d4)
  with assms inferCommand_frame [OF success(2)]
    inferPrettyDiff_frame [OF success(3)]
    inferRollback_frame [OF success(4)] inferPatch_frame [of d4] show ?thesis by auto
qed

section \<open>Evaluation of the scenarios\<close>

lemmas scenario_defs =
  scenarioExt_def scenarioMarshal_def scenarioUnmarshal_def replaceDiff_def replaceApply_def
  scenarioPrettyDiff_def quietClient_def acceptAll_def jsonTagged_def
  scenarioA_def scenarioB_def scenarioC_def scenarioD_def emptyPatchChange_def
  addWithoutBefore_def
  taggedChange_def updateChange_def timestampChange_def NewChange_def

lemmas engine_defs =
  SolveChange_def inferAfter_def inferCommand_def inferPrettyDiff_def inferRollback_def
  inferPatch_def beforeAfterCache_def fetchCache_eq SerializeData_def DeSerializeData_def
  len_zero fmmap_fmupd fmupd_single_eq deleteLiteral_def decodeString_def unwrap_def

lemma Sprintf_plain: "CHR ''%'' \<notin> set s \<Longrightarrow> Sprintf verbs s = s"
  by (induction s) auto



section \<open>The claims on the change-resolution engine\<close>

text \<open>
  Claim C3, as amended. A change with command unknown whose before state is \<^verbatim>\<open>nil\<close>,
  or whose patch is \<^verbatim>\<open>nil\<close> while its instruction is empty, does not resolve:
  \<^verbatim>\<open>SolveChange\<close> returns the error of line 121 and stores it as the error state,
  every other field (the after state and the cache among them) is as it was, and
  \<^verbatim>\<open>Present\<close> renders the error block, whatever the collaborators are. The guard asks
  for a patch that is present, not for one that has fields.
\<close>

theorem unknown_needs_inputs:
  assumes "command c = MigratorUnknown"
    and "before c = None \<or> (patch c = None \<and> instruction c = [])"
  shows \<open>SolveChange ext c = (c\<lparr>errState := Some needInputs\<rparr>, Some needInputs)
       \<and> snd (Present blue verbs (fst (SolveChange ext c)))
           = ''< !!! ERROR STATE !!! >\<newline>'' @ needInputs @ ''\<newline>''\<close>
proof -
  have solve: "SolveChange ext c = (c\<lparr>errState := Some needInputs\<rparr>, Some needInputs)"
    using assms by (auto simp: SolveChange_def inferAfter_def)
  have "Sprintf verbs (needInputs @ ''\<newline>'') = needInputs @ ''\<newline>''"
    by (rule Sprintf_plain) (simp add: needInputs_def)
  then show ?thesis
    by (simp add: solve Present_def Sprintf_plain)
qed

text \<open>Scenario D of the spec: no before state, a patch, command unknown.\<close>

theorem unknown_needs_inputs_witness:
  \<open>command scenarioD = MigratorUnknown \<and> before scenarioD = None
   \<and> patch scenarioD = Some (fmupd ''y'' (Number 2) fmempty)
   \<and> SolveChange scenarioExt scenarioD = (scenarioD\<lparr>errState := Some needInputs\<rparr>, Some needInputs)
   \<and> snd (Present id id (fst (SolveChange scenarioExt scenarioD)))
       = ''< !!! ERROR STATE !!! >\<newline>Need before and patch/instruction to infer after.\<newline>''\<close>
proof -
  have c: "command scenarioD = MigratorUnknown" and b: "before scenarioD = None"
    and p: "patch scenarioD = Some (fmupd ''y'' (Number 2) fmempty)"
    by (simp_all add: scenarioD_def NewChange_def)
  note run = unknown_needs_inputs [OF c disjI1 [OF b], of scenarioExt id id]
  have s: "SolveChange scenarioExt scenarioD
             = (scenarioD\<lparr>errState := Some needInputs\<rparr>, Some needInputs)"
    using run by (rule conjunct1)
  have "snd (Present id id (fst (SolveChange scenarioExt scenarioD)))
          = ''< !!! ERROR STATE !!! >\<newline>'' @ needInputs @ ''\<newline>''"
    using run by (rule conjunct2)
  then have r: \<open>snd (Present id id (fst (SolveChange scenarioExt scenarioD)))
       = ''< !!! ERROR STATE !!! >\<newline>Need before and patch/instruction to infer after.\<newline>''\<close>
    by (simp add: needInputs_def)
  from c b p s r show ?thesis by (intro conjI)
qed

text \<open>
  Claim C3 as stated fails on a patch that is present and empty with an empty
  instruction: line 120 lets it through, the empty patch is applied, and the change
  resolves (to a delete, on the empty document).
\<close>

theorem unknown_needs_inputs_counterexample:
  "command emptyPatchChange = MigratorUnknown
   \<and> before emptyPatchChange = Some fmempty
   \<and> len (patch emptyPatchChange) = 0
   \<and> instruction emptyPatchChange = []
   \<and> snd (SolveChange scenarioExt emptyPatchChange) = None
   \<and> errState (fst (SolveChange scenarioExt emptyPatchChange)) = None
   \<and> after (fst (SolveChange scenarioExt emptyPatchChange)) = Some fmempty"
  by (simp add: scenario_defs engine_defs)

text \<open>
  Claim C4. For a change whose command is Set or Add, \<^verbatim>\<open>inferAfter\<close> returns at once
  with the after state set to the patch and nothing else changed, the cache included:
  nothing is serialized. The result is the same for every choice of the collaborators,
  also for a diff/patch primitive that fails on every call; since the source returns
  the error of every call it makes, no call is made. No later step writes the after
  state, so it is the patch when \<^verbatim>\<open>SolveChange\<close> returns, with or without an error.
\<close>

theorem set_add_shortcut:
  assumes "command c = MigratorSet \<or> command c = MigratorAdd"
  shows "inferAfter ext c = (c\<lparr>after := patch c\<rparr>, None)
       \<and> inferAfter ext c = inferAfter ext' c
       \<and> after (fst (SolveChange ext c)) = patch c"
proof -
  have step: "inferAfter x d = (d\<lparr>after := patch d\<rparr>, None)"
    if "command d = MigratorSet \<or> command d = MigratorAdd" for x d
    using that by (auto simp: inferAfter_def)
  have "inferAfter ext (c\<lparr>errState := None\<rparr>) = (c\<lparr>errState := None, after := patch c\<rparr>, None)"
    using step [of "c\<lparr>errState := None\<rparr>" ext] assms by simp
  from SolveChange_after [OF this] have "after (fst (SolveChange ext c)) = patch c"
    by simp
  with step [OF assms, of ext] step [OF assms, of ext'] show ?thesis by simp
qed

theorem set_add_shortcut_witness:
  "command scenarioB = MigratorAdd
   \<and> inferAfter scenarioExt scenarioB = (scenarioB\<lparr>after := patch scenarioB\<rparr>, None)
   \<and> inferAfter scenarioExt scenarioB = inferAfter brokenExt scenarioB
   \<and> after (fst (SolveChange scenarioExt scenarioB)) = Some (fmupd ''foo'' (Str ''baz'') fmempty)"
proof -
  have c: "command scenarioB = MigratorAdd"
    and p: "patch scenarioB = Some (fmupd ''foo'' (Str ''baz'') fmempty)"
    by (simp_all add: scenarioB_def NewChange_def)
  note run = set_add_shortcut [OF disjI2 [OF c], of scenarioExt brokenExt]
  from run have r1: "inferAfter scenarioExt scenarioB = (scenarioB\<lparr>after := patch scenarioB\<rparr>, None)"
    by (rule conjunct1)
  from run have r2: "inferAfter scenarioExt scenarioB = inferAfter brokenExt scenarioB"
    by (rule conjunct2 [THEN conjunct1])
  from run have "after (fst (SolveChange scenarioExt scenarioB)) = patch scenarioB"
    by (rule conjunct2 [THEN conjunct2])
  with p have r3: "after (fst (SolveChange scenarioExt scenarioB))
                     = Some (fmupd ''foo'' (Str ''baz'') fmempty)"
    by simp
  from c r1 r2 r3 show ?thesis by (intro conjI)
qed

lemma len_pos: "0 < len m \<longleftrightarrow> m \<noteq> None \<and> m \<noteq> Some fmempty"
  using len_zero [of m] by auto

lemma inferCommand_result:
  assumes "inferCommand c = (c', None)" and "command c = MigratorUnknown"
  shows "\<exists>m. after c = Some m \<and> c' = c\<lparr>command := (if m \<noteq> fmempty then MigratorSet else MigratorDelete)\<rparr>"
  using assms by (cases "after c") (auto simp: inferCommand_def len_pos split: if_splits)

lemma inferCommand_known:
  assumes "command c \<noteq> MigratorUnknown"
  shows "inferCommand c = (c, None)"
  using assms by (simp add: inferCommand_def)

text \<open>
  Claim C5. When a change whose command is unknown resolves, its after state is a
  mapping, and its command is Set exactly when that mapping has a field and Delete
  exactly when it has none. A command other than unknown is the same when
  \<^verbatim>\<open>SolveChange\<close> returns, with or without an error.
\<close>

theorem command_inference:
  "(command c = MigratorUnknown \<and> SolveChange ext c = (c', None) \<longrightarrow>
      (\<exists>m. after c' = Some m
           \<and> (command c' = MigratorSet \<longleftrightarrow> m \<noteq> fmempty)
           \<and> (command c' = MigratorDelete \<longleftrightarrow> m = fmempty)))
   \<and> (command c \<noteq> MigratorUnknown \<longrightarrow> command (fst (SolveChange ext c)) = command c)"
proof (intro conjI impI)
  assume a: "command c = MigratorUnknown \<and> SolveChange ext c = (c', None)"
  then obtain c1 c2 c3 c4 where
    s1: "inferAfter ext (c\<lparr>errState := None\<rparr>) = (c1, None)" and
    s2: "inferCommand c1 = (c2, None)" and
    s3: "inferPrettyDiff ext c2 = (c3, None)" and
    s4: "inferRollback ext c3 = (c4, None)" and
    c': "c' = inferPatch c4"
    by (auto elim: SolveChange_success)
  from inferAfter_frame [OF s1] a have "command c1 = MigratorUnknown" by auto
  from inferCommand_result [OF s2 this] obtain m where
    m: "after c1 = Some m"
       "c2 = c1\<lparr>command := (if m \<noteq> fmempty then MigratorSet else MigratorDelete)\<rparr>"
    by blast
  from inferPrettyDiff_frame [OF s3] inferRollback_frame [OF s4] inferPatch_frame [of c4] c' m
  have "after c' = Some m"
    and "command c' = (if m \<noteq> fmempty then MigratorSet else MigratorDelete)"
    by auto
  then show "\<exists>m. after c' = Some m
           \<and> (command c' = MigratorSet \<longleftrightarrow> m \<noteq> fmempty)
           \<and> (command c' = MigratorDelete \<longleftrightarrow> m = fmempty)"
    by auto
next
  assume known: "command c \<noteq> MigratorUnknown"
  show "command (fst (SolveChange ext c)) = command c"
  proof (cases rule: SolveChange_cases [of ext c])
    case (failAfter c1 err)
    with inferAfter_frame [OF failAfter(1)] show ?thesis by auto
  next
    case (failCommand c1 c2 err)
    with inferAfter_frame [OF failCommand(1)] inferCommand_frame [OF failCommand(2)]
    show ?thesis by auto
  next
    case (failPrettyDiff c1 c2 c3 err)
    from inferAfter_frame [OF failPrettyDiff(1)] known
    have k1: "command c1 = command c" "command c1 \<noteq> MigratorUnknown" by auto
    with failPrettyDiff(2) inferCommand_known [of c1] have "c2 = c1" by simp
    with k1 inferPrettyDiff_frame [OF failPrettyDiff(3)] failPrettyDiff(4)
    show ?thesis by auto
  next
    case (failRollback c1 c2 c3 c4 err)
    from inferAfter_frame [OF failRollback(1)] known
    have k1: "command c1 = command c" "command c1 \<noteq> MigratorUnknown" by auto
    with failRollback(2) inferCommand_known [of c1] have "c2 = c1" by simp
    with k1 inferPrettyDiff_frame [OF failRollback(3)] inferRollback_frame [OF failRollback(4)]
      failRollback(5)
    show ?thesis by auto
  next
    case (success c1 c2 c3 c4)
    from inferAfter_frame [OF success(1)] known
    have k1: "command c1 = command c" "command c1 \<noteq> MigratorUnknown" by auto
    with success(2) inferCommand_known [of c1] have "c2 = c1" by simp
    with k1 inferPrettyDiff_frame [OF success(3)] inferRollback_frame [OF success(4)]
      inferPatch_frame [of c4] success(5)
    show ?thesis by auto
  qed
qed

text \<open>Scenario A resolves to a Set; scenario C keeps its Delete.\<close>

theorem command_inference_witness:
  "command scenarioA = MigratorUnknown
   \<and> snd (SolveChange scenarioExt scenarioA) = None
   \<and> after (fst (SolveChange scenarioExt scenarioA)) = Some (fmupd ''foo'' (Str ''baz'') fmempty)
   \<and> command (fst (SolveChange scenarioExt scenarioA)) = MigratorSet
   \<and> command scenarioC = MigratorDelete
   \<and> command (fst (SolveChange scenarioExt scenarioC)) = MigratorDelete"
proof -
  have a: "command scenarioA = MigratorUnknown" and c: "command scenarioC = MigratorDelete"
    by (simp_all add: scenarioA_def scenarioC_def NewChange_def)
  have s: "snd (SolveChange scenarioExt scenarioA) = None"
    and f: "after (fst (SolveChange scenarioExt scenarioA)) = Some (fmupd ''foo'' (Str ''baz'') fmempty)"
    by (simp_all add: scenario_defs engine_defs)
  from s have run: "SolveChange scenarioExt scenarioA = (fst (SolveChange scenarioExt scenarioA), None)"
    by (metis prod.collapse)
  note inst = command_inference [of scenarioA scenarioExt "fst (SolveChange scenarioExt scenarioA)"]
  from inst a run f have set: "command (fst (SolveChange scenarioExt scenarioA)) = MigratorSet"
    by auto
  from command_inference [of scenarioC scenarioExt] c
  have del: "command (fst (SolveChange scenarioExt scenarioC)) = MigratorDelete"
    by auto
  from a s f set c del show ?thesis by (intro conjI)
qed

lemma inferAfter_delete:
  assumes "command c = MigratorDelete"
  shows "inferAfter ext c = (c\<lparr>after := Some fmempty\<rparr>, None)"
  using assms by (simp add: inferAfter_def)

lemma runSteps_inference:
  "runSteps (inferenceSteps ext) c0 = (c4, None) \<longleftrightarrow>
     (\<exists>c1 c2 c3.
        inferAfter ext c0 = (c1, None) \<and> inferCommand c1 = (c2, None) \<and>
        inferPrettyDiff ext c2 = (c3, None) \<and> inferRollback ext c3 = (c4, None))"
  by (auto simp: inferenceSteps_def split: prod.splits option.splits)

lemma SolveChange_runSteps:
  "SolveChange ext c = runSteps (pipeline ext) (c\<lparr>errState := None\<rparr>)"
  by (simp add: SolveChange_def pipeline_def inferenceSteps_def
           split: prod.splits option.splits)

text \<open>
  Claim C6. Let a change whose patch has no field (\<^verbatim>\<open>nil\<close> or empty) resolve. If
  the command it ends with is Add, Set or Update, its patch is then its after state.
  If that command is Delete, the patch is as it was and the after state is the empty
  mapping. The command it ends with is never unknown. The fill-in step returns no
  error: whenever the four steps before it succeed, \<^verbatim>\<open>SolveChange\<close> succeeds, with
  the change the fill-in leaves.
\<close>

theorem patch_fill_in:
  assumes "len (patch c) = 0" and "SolveChange ext c = (c', None)"
  shows "(command c' = MigratorAdd \<or> command c' = MigratorSet \<or> command c' = MigratorUpdate
            \<longrightarrow> patch c' = after c')
       \<and> (command c' = MigratorDelete \<longrightarrow> patch c' = patch c \<and> after c' = Some fmempty)
       \<and> command c' \<noteq> MigratorUnknown
       \<and> (\<forall>d. runSteps (inferenceSteps ext) (c\<lparr>errState := None\<rparr>) = (d, None)
              \<longrightarrow> SolveChange ext c = (inferPatch d, None))"
proof -
  from assms(2) obtain c1 c2 c3 c4 where
    s1: "inferAfter ext (c\<lparr>errState := None\<rparr>) = (c1, None)" and
    s2: "inferCommand c1 = (c2, None)" and
    s3: "inferPrettyDiff ext c2 = (c3, None)" and
    s4: "inferRollback ext c3 = (c4, None)" and
    c': "c' = inferPatch c4"
    by (auto elim: SolveChange_success)
  note f1 = inferAfter_frame [OF s1] and f2 = inferCommand_frame [OF s2]
    and f3 = inferPrettyDiff_frame [OF s3] and f4 = inferRollback_frame [OF s4]
  from f1 f2 f3 f4 have p4: "patch c4 = patch c" by auto
  from f2 f3 f4 have a4: "after c4 = after c1" by auto
  from f3 f4 have k4: "command c4 = command c2" by auto
  from f1 have k1: "command c1 = command c" by auto
  have known: "command c2 \<noteq> MigratorUnknown"
  proof (cases "command c1 = MigratorUnknown")
    case True
    from inferCommand_result [OF s2 True] show ?thesis by (auto split: if_splits)
  next
    case False
    with s2 inferCommand_known [of c1] show ?thesis by simp
  qed
  have del: "after c1 = Some fmempty" if d: "command c2 = MigratorDelete"
  proof (cases "command c1 = MigratorUnknown")
    case True
    from inferCommand_result [OF s2 True] d show ?thesis by (auto split: if_splits)
  next
    case False
    with s2 inferCommand_known [of c1] have "c2 = c1" by simp
    with d k1 have "command (c\<lparr>errState := None\<rparr>) = MigratorDelete" by simp
    from inferAfter_delete [OF this, of ext] s1 show ?thesis by auto
  qed
  have fill: "command c' = command c4"
    "command c4 = MigratorAdd \<or> command c4 = MigratorSet \<or> command c4 = MigratorUpdate
       \<Longrightarrow> patch c' = after c' "
    "command c4 = MigratorDelete \<Longrightarrow> patch c' = patch c4 \<and> after c' = after c4"
    using c' p4 assms(1) by (auto simp: inferPatch_def)
  have last: "SolveChange ext c = (inferPatch d, None)"
    if "runSteps (inferenceSteps ext) (c\<lparr>errState := None\<rparr>) = (d, None)" for d
  proof -
    from that obtain d1 d2 d3 where
      "inferAfter ext (c\<lparr>errState := None\<rparr>) = (d1, None)" "inferCommand d1 = (d2, None)"
      "inferPrettyDiff ext d2 = (d3, None)" "inferRollback ext d3 = (d, None)"
      by (auto simp: runSteps_inference)
    then show ?thesis by (simp add: SolveChange_def)
  qed
  from fill known del k4 p4 a4 last show ?thesis by auto
qed

text \<open>
  An update given by an instruction only, whose patch is filled in, and scenario C, a
  delete whose patch stays \<^verbatim>\<open>nil\<close>.
\<close>

theorem patch_fill_in_witness:
  \<open>len (patch updateChange) = 0
   \<and> snd (SolveChange scenarioExt updateChange) = None
   \<and> command (fst (SolveChange scenarioExt updateChange)) = MigratorUpdate
   \<and> patch (fst (SolveChange scenarioExt updateChange)) = after (fst (SolveChange scenarioExt updateChange))
   \<and> after (fst (SolveChange scenarioExt updateChange)) = Some (fmupd ''foo'' (Str ''baz'') fmempty)
   \<and> len (patch scenarioC) = 0
   \<and> snd (SolveChange scenarioExt scenarioC) = None
   \<and> command (fst (SolveChange scenarioExt scenarioC)) = MigratorDelete
   \<and> patch (fst (SolveChange scenarioExt scenarioC)) = None
   \<and> after (fst (SolveChange scenarioExt scenarioC)) = Some fmempty\<close>
proof -
  have u0: "len (patch updateChange) = 0" and c0: "len (patch scenarioC) = 0"
    and pc: "patch scenarioC = None"
    by (simp_all add: updateChange_def scenarioC_def NewChange_def len_zero)
  have us: "snd (SolveChange scenarioExt updateChange) = None"
    and uk: "command (fst (SolveChange scenarioExt updateChange)) = MigratorUpdate"
    and ua: "after (fst (SolveChange scenarioExt updateChange)) = Some (fmupd ''foo'' (Str ''baz'') fmempty)"
    by (simp_all add: scenario_defs engine_defs)
  have cs: "snd (SolveChange scenarioExt scenarioC) = None"
    and ck: "command (fst (SolveChange scenarioExt scenarioC)) = MigratorDelete"
    by (simp_all add: scenario_defs engine_defs)
  from us have urun: "SolveChange scenarioExt updateChange = (fst (SolveChange scenarioExt updateChange), None)"
    by (metis prod.collapse)
  from cs have crun: "SolveChange scenarioExt scenarioC = (fst (SolveChange scenarioExt scenarioC), None)"
    by (metis prod.collapse)
  from patch_fill_in [OF u0 urun] uk
  have up: "patch (fst (SolveChange scenarioExt updateChange)) = after (fst (SolveChange scenarioExt updateChange))"
    by simp
  from patch_fill_in [OF c0 crun] ck pc
  have cp: "patch (fst (SolveChange scenarioExt scenarioC)) = None"
    and ca: "after (fst (SolveChange scenarioExt scenarioC)) = Some fmempty"
    by simp_all
  from u0 us uk up ua c0 cs ck cp ca show ?thesis by (intro conjI)
qed

lemma step_keeps_derived:
  assumes "step \<in> set (pipeline ext)" and "step c0 = (c1, Some err)"
  shows "derived c1 = derived c0"
proof -
  from assms(1) consider "step = inferAfter ext" | "step = inferCommand"
    | "step = inferPrettyDiff ext" | "step = inferRollback ext"
    | "step = (\<lambda>c. (inferPatch c, None))"
    by (auto simp: pipeline_def inferenceSteps_def)
  then show ?thesis
  proof cases
    case 1
    with assms(2) inferAfter_frame [of ext c0 c1 "Some err"] show ?thesis
      by (auto simp: derived_def)
  next
    case 2
    with assms(2) inferCommand_frame [of c0 c1 "Some err"] show ?thesis
      by (auto simp: derived_def)
  next
    case 3
    with assms(2) inferPrettyDiff_frame [of ext c0 c1 "Some err"] show ?thesis
      by (auto simp: derived_def)
  next
    case 4
    with assms(2) inferRollback_frame [of ext c0 c1 "Some err"] show ?thesis
      by (auto simp: derived_def)
  next
    case 5
    with assms(2) show ?thesis by simp
  qed
qed

lemma SolveChange_errState: "errState (fst (SolveChange ext c)) = snd (SolveChange ext c)"
proof (cases rule: SolveChange_cases [of ext c])
  case (success c1 c2 c3 c4)
  with inferAfter_frame [OF success(1)] inferCommand_frame [OF success(2)]
    inferPrettyDiff_frame [OF success(3)] inferRollback_frame [OF success(4)]
    inferPatch_frame [of c4]
  show ?thesis by auto
qed simp_all

text \<open>
  Claim C7. \<^verbatim>\<open>SolveChange\<close> is the fail-closed run of the five steps in the order
  after, command, pretty diff, rollback, patch, from the change with its error state
  cleared: the first step that returns an error ends the run, with that error as the
  error state and as the result. A step that returns an error has written none of the
  derived fields, so each holds what the steps before left. The error state that
  \<^verbatim>\<open>SolveChange\<close> leaves is the error it returns.
\<close>

theorem pipeline_fails_closed:
  "SolveChange ext c = runSteps (pipeline ext) (c\<lparr>errState := None\<rparr>)
   \<and> (\<forall>step\<in>set (pipeline ext). \<forall>c0 c1 err.
         step c0 = (c1, Some err) \<longrightarrow> derived c1 = derived c0)
   \<and> errState (fst (SolveChange ext c)) = snd (SolveChange ext c)"
  using SolveChange_runSteps step_keeps_derived SolveChange_errState by blast


text \<open>
  An addition with no before state: the after state is inferred, then the pretty diff
  fails, and the after state stays.
\<close>

theorem pipeline_fails_closed_witness:
  "SolveChange scenarioExt addWithoutBefore
     = (addWithoutBefore\<lparr>after := patch addWithoutBefore,
          errState := Some ''Need before and after value to infer pretty diff.''\<rparr>,
        Some ''Need before and after value to infer pretty diff.'')
   \<and> inferPrettyDiff scenarioExt (addWithoutBefore\<lparr>errState := None, after := patch addWithoutBefore\<rparr>)
     = (addWithoutBefore\<lparr>errState := None, after := patch addWithoutBefore\<rparr>,
        Some ''Need before and after value to infer pretty diff.'')
   \<and> derived (fst (inferPrettyDiff scenarioExt
         (addWithoutBefore\<lparr>errState := None, after := patch addWithoutBefore\<rparr>)))
     = (Some (fmupd ''foo'' (Str ''baz'') fmempty), MigratorAdd, [], [],
        Some (fmupd ''foo'' (Str ''baz'') fmempty))"
proof -
  let ?c = "addWithoutBefore\<lparr>errState := None, after := patch addWithoutBefore\<rparr>"
  note inst = pipeline_fails_closed [of scenarioExt addWithoutBefore]
  from inst have "SolveChange scenarioExt addWithoutBefore
                    = runSteps (pipeline scenarioExt) (addWithoutBefore\<lparr>errState := None\<rparr>)"
    by (rule conjunct1)
  then have r1: "SolveChange scenarioExt addWithoutBefore
     = (addWithoutBefore\<lparr>after := patch addWithoutBefore,
          errState := Some ''Need before and after value to infer pretty diff.''\<rparr>,
        Some ''Need before and after value to infer pretty diff.'')"
    by (simp add: pipeline_def inferenceSteps_def inferAfter_def inferCommand_def
          inferPrettyDiff_def addWithoutBefore_def NewChange_def)
  have r2: "inferPrettyDiff scenarioExt ?c
              = (?c, Some ''Need before and after value to infer pretty diff.'')"
    by (simp add: inferPrettyDiff_def addWithoutBefore_def NewChange_def)
  have m: "inferPrettyDiff scenarioExt \<in> set (pipeline scenarioExt)"
    by (simp add: pipeline_def inferenceSteps_def)
  from inst m r2 have "derived (fst (inferPrettyDiff scenarioExt ?c)) = derived ?c"
    by (metis fst_conv)
  then have r3: "derived (fst (inferPrettyDiff scenarioExt ?c))
     = (Some (fmupd ''foo'' (Str ''baz'') fmempty), MigratorAdd, [], [],
        Some (fmupd ''foo'' (Str ''baz'') fmempty))"
    by (simp add: derived_def addWithoutBefore_def NewChange_def)
  from r1 r2 r3 show ?thesis by (intro conjI)
qed












text \<open>
  Claim C9, as amended. \<^verbatim>\<open>pushChange\<close> does not read the error state. On every
  change it hands the client one call, chosen by the command alone: the update of the
  document with the transformed patch for Update, its overwrite for Set and Add, its
  deletion for every other command, Unknown included. The error state changes neither
  the call nor the answer.
\<close>

theorem pushChange_dispatch:
  "pushChange transformer c =
     (let call = (case command c of
                    MigratorUpdate \<Rightarrow> UpdateDoc (docPath c) (transformer (patch c))
                  | MigratorSet \<Rightarrow> SetDoc (docPath c) (transformer (patch c))
                  | MigratorAdd \<Rightarrow> SetDoc (docPath c) (transformer (patch c))
                  | MigratorDelete \<Rightarrow> DeleteDoc (docPath c)
                  | MigratorUnknown \<Rightarrow> DeleteDoc (docPath c))
      in (c\<lparr>database := (database c)\<lparr>calls := calls (database c) @ [call]\<rparr>\<rparr>,
          reply (database c) call))
   \<and> fst (pushChange transformer (c\<lparr>errState := e\<rparr>))
       = (fst (pushChange transformer c))\<lparr>errState := e\<rparr>
   \<and> snd (pushChange transformer (c\<lparr>errState := e\<rparr>)) = snd (pushChange transformer c)"
  by (cases "command c") (simp_all add: pushChange_def invoke_def Let_def)

text \<open>Scenario B, pushed with the identity as transformer.\<close>

theorem pushChange_dispatch_witness:
  "pushChange id scenarioB
     = (scenarioB\<lparr>database := quietClient
           \<lparr>calls := [SetDoc ''fig/fog'' (Some (fmupd ''foo'' (Str ''baz'') fmempty))]\<rparr>\<rparr>, None)"
  using pushChange_dispatch [of id scenarioB None]
  by (simp add: scenarioB_def NewChange_def quietClient_def acceptAll_def)

text \<open>
  Claim C9 as stated fails on scenario D: resolution fails and leaves the command
  unknown, and \<^verbatim>\<open>pushChange\<close> on the errored change asks the client, which had
  received no call, to delete the document.
\<close>

theorem pushChange_dispatch_counterexample:
  "errState (fst (SolveChange scenarioExt scenarioD)) = Some needInputs
   \<and> calls (database scenarioD) = []
   \<and> calls (database (fst (pushChange id (fst (SolveChange scenarioExt scenarioD)))))
       = [DeleteDoc ''fig/fog'']"
  by (simp add: scenario_defs engine_defs pushChange_def invoke_def)

text \<open>The tokens \<^verbatim>\<open>Present\<close> removes, on two rendered differences.\<close>

lemma strip_tagged:
  \<open>foldl (\<lambda>s r. Replace (Replace s (''"'' @ r) []) (r @ ''"'') [])
      ''+ "time": "<time>2023-05-13T13:44:40.522Z<time>"''
      [''__timestamp__'', ''__delete__'', ''__docref__'']
   = ''+ "time": "<time>2023-05-13T13:44:40.522Z<time>"''\<close>
  by code_simp

lemma strip_underscored:
  \<open>foldl (\<lambda>s r. Replace (Replace s (''"'' @ r) []) (r @ ''"'') [])
      ''+ "time": "__timestamp__2023-05-13T13:44:40.522Z__timestamp__"''
      [''__timestamp__'', ''__delete__'', ''__docref__'']
   = ''+ "time": 2023-05-13T13:44:40.522Z''\<close>
  by code_simp

lemma Present_diff:
  assumes "errState c = None" and "prettyDiff c = d" and "d \<noteq> []"
    and \<open>foldl (\<lambda>s r. Replace (Replace s (''"'' @ r) []) (r @ ''"'') []) d
           [''__timestamp__'', ''__delete__'', ''__docref__''] = s\<close>
    and "CHR ''%'' \<notin> set s"
  shows \<open>Present blue verbs c =
           ([''Target: '' @ blue (docPath c),
             '' >> ['' @ ToUpper (commandString c) @ '']'' @ ''\<newline>\<newline>''],
            s @ ''\<newline>'')\<close>
proof -
  have "Sprintf verbs (s @ ''\<newline>'') = s @ ''\<newline>''"
    using assms(5) by (intro Sprintf_plain) simp
  with assms(1-4) show ?thesis
    by (simp add: Present_def Let_def)
qed

text \<open>
  Claim C8 fails on the code. \<^verbatim>\<open>Present\<close> removes the tokens \<^verbatim>\<open>"__timestamp__\<close>,
  \<^verbatim>\<open>"__delete__\<close> and \<^verbatim>\<open>"__docref__\<close> (and each with the quote after it), and
  nothing else. A rendered difference that holds a timestamp in the serialized form the
  README documents, \<^verbatim>\<open><time>\<close> around the instant, comes out with both
  \<^verbatim>\<open><time>\<close> delimiters and the quotes in place; the same value between
  \<^verbatim>\<open>__timestamp__\<close> tokens comes out bare.
\<close>

theorem present_keeps_time_tags:
  \<open>Present blue verbs timestampChange
     = ([''Target: '' @ blue ''fig/fog'', '' >> [ADD]\<newline>\<newline>''],
        ''+ "time": "<time>2023-05-13T13:44:40.522Z<time>"\<newline>'')
   \<and> snd (Present blue verbs
        (timestampChange\<lparr>prettyDiff :=
           ''+ "time": "__timestamp__2023-05-13T13:44:40.522Z__timestamp__"''\<rparr>))
     = ''+ "time": 2023-05-13T13:44:40.522Z\<newline>''\<close>
proof
  have e: "errState timestampChange = None"
    and d: \<open>prettyDiff timestampChange = ''+ "time": "<time>2023-05-13T13:44:40.522Z<time>"''\<close>
    and p: "docPath timestampChange = ''fig/fog''"
    and u: "ToUpper (commandString timestampChange) = ''ADD''"
    by (simp_all add: timestampChange_def NewChange_def commandString_def ToUpper_def
          upperChar_def)
  from Present_diff [OF e d _ strip_tagged, of blue verbs] p u
  show \<open>Present blue verbs timestampChange
     = ([''Target: '' @ blue ''fig/fog'', '' >> [ADD]\<newline>\<newline>''],
        ''+ "time": "<time>2023-05-13T13:44:40.522Z<time>"\<newline>'')\<close>
    by simp
next
  let ?c = \<open>timestampChange\<lparr>prettyDiff :=
           ''+ "time": "__timestamp__2023-05-13T13:44:40.522Z__timestamp__"''\<rparr>\<close>
  have e: "errState ?c = None"
    and d: \<open>prettyDiff ?c = ''+ "time": "__timestamp__2023-05-13T13:44:40.522Z__timestamp__"''\<close>
    by (simp_all add: timestampChange_def NewChange_def)
  from Present_diff [OF e d _ strip_underscored, of blue verbs]
  show \<open>snd (Present blue verbs ?c) = ''+ "time": 2023-05-13T13:44:40.522Z\<newline>''\<close>
    by simp
qed

section \<open>Rollback: the cache, the patch and its application\<close>






















end
